theory Spec2Isabelle
  imports Complex_Main "HOL-Library.AList"
begin

section \<open>The rule-based diagnostic engine (diagnostic-engine.js)\<close>

text \<open>
  The engine takes a rule set (parsed from a JSON document) and a flat object of signals and
  computes a ranked diagnosis. Its methods mutate the fields of the engine object; here every
  method takes the engine and returns the engine it leaves behind.

  JavaScript numbers are modelled as exact rationals: the values a JSON document can carry
  are finite, and rounding of IEEE doubles, \<open>NaN\<close> and the infinities are left out. \<open>None\<close>
  stands for \<open>NaN\<close> where a conversion to a number fails, and for \<open>undefined\<close> where a
  property is looked up.
\<close>

subsection \<open>Values\<close>

text \<open>The primitive values of a JSON document: a signal or an operator's threshold.\<close>

datatype jsval = JStr string | JBool bool | JNum rat | JNull

text \<open>
  A condition of a trigger, by the \<open>typeof\<close> the evaluator dispatches on: a string, a
  boolean, a number, or an object mapping operator symbols to thresholds (its entries in
  the order \<open>Object.entries\<close> lists them).
\<close>

datatype condition =
    CStr string
  | CBool bool
  | CNum rat
  | CObj "(string \<times> jsval) list"

type_synonym trigger = "(string \<times> condition) list"

type_synonym signals = "string \<Rightarrow> jsval option"

subsection \<open>Conversions and comparisons of the language\<close>

definition is_space :: "char \<Rightarrow> bool" where
  "is_space c = (c = CHR '' '' \<or> (9 :: nat) \<le> of_char c \<and> of_char c \<le> (13 :: nat))"

definition is_digit :: "char \<Rightarrow> bool" where
  "is_digit c = ((48 :: nat) \<le> of_char c \<and> of_char c \<le> (57 :: nat))"

fun digits_value :: "nat \<Rightarrow> string \<Rightarrow> nat" where
  "digits_value acc [] = acc"
| "digits_value acc (c # cs) = digits_value (acc * 10 + (of_char c - 48)) cs"

definition trim :: "string \<Rightarrow> string" where
  "trim s = rev (dropWhile is_space (rev (dropWhile is_space s)))"

text \<open>
  \<open>StringToNumber\<close> for decimal literals: surrounding (ASCII) white space is dropped, the
  empty string is 0, then an optional sign, digits and an optional fraction. Literals with an
  exponent, a radix prefix or \<open>Infinity\<close> are not covered and come out as \<open>NaN\<close>; no
  property below depends on them.
\<close>

definition unsigned_to_number :: "string \<Rightarrow> rat option" where
  "unsigned_to_number u =
     (let ip = takeWhile is_digit u; rest = dropWhile is_digit u
      in case rest of
           [] \<Rightarrow> if ip = [] then None else Some (of_nat (digits_value 0 ip))
         | c # fr \<Rightarrow>
             if c = CHR ''.'' \<and> list_all is_digit fr \<and> (ip \<noteq> [] \<or> fr \<noteq> [])
             then Some (of_nat (digits_value 0 ip) + of_nat (digits_value 0 fr) / 10 ^ length fr)
             else None)"

definition StringToNumber :: "string \<Rightarrow> rat option" where
  "StringToNumber s =
     (case trim s of
        [] \<Rightarrow> Some 0
      | c # r \<Rightarrow>
          if c = CHR ''-'' then map_option uminus (unsigned_to_number r)
          else if c = CHR ''+'' then unsigned_to_number r
          else unsigned_to_number (c # r))"

fun ToNumber :: "jsval \<Rightarrow> rat option" where
  "ToNumber (JNum n) = Some n"
| "ToNumber (JBool b) = Some (if b then 1 else 0)"
| "ToNumber JNull = Some 0"
| "ToNumber (JStr s) = StringToNumber s"

text \<open>Strings compare by code unit, the first difference deciding.\<close>

fun str_less :: "string \<Rightarrow> string \<Rightarrow> bool" where
  "str_less [] [] = False"
| "str_less [] (y # ys) = True"
| "str_less (x # xs) [] = False"
| "str_less (x # xs) (y # ys) =
     (if x = y then str_less xs ys else (of_char x :: nat) < of_char y)"

text \<open>
  \<open>x < y\<close>: two strings compare as strings, anything else as numbers; a \<open>NaN\<close> operand
  makes every ordering comparison false.
\<close>

fun js_lt :: "jsval \<Rightarrow> jsval \<Rightarrow> bool" where
  "js_lt (JStr a) (JStr b) = str_less a b"
| "js_lt x y =
     (case (ToNumber x, ToNumber y) of (Some a, Some b) \<Rightarrow> a < b | _ \<Rightarrow> False)"

definition js_gt :: "jsval \<Rightarrow> jsval \<Rightarrow> bool" where
  "js_gt x y = js_lt y x"

fun js_le :: "jsval \<Rightarrow> jsval \<Rightarrow> bool" where
  "js_le (JStr a) (JStr b) = (\<not> str_less b a)"
| "js_le x y =
     (case (ToNumber x, ToNumber y) of (Some a, Some b) \<Rightarrow> a \<le> b | _ \<Rightarrow> False)"

definition js_ge :: "jsval \<Rightarrow> jsval \<Rightarrow> bool" where
  "js_ge x y = js_le y x"

text \<open>
  \<open>x == y\<close> (loose equality): \<open>null\<close> equals only \<open>null\<close>; two strings compare as strings;
  every other pair is compared after conversion to numbers.
\<close>

fun js_loose_eq :: "jsval \<Rightarrow> jsval \<Rightarrow> bool" where
  "js_loose_eq JNull JNull = True"
| "js_loose_eq JNull y = False"
| "js_loose_eq x JNull = False"
| "js_loose_eq (JStr a) (JStr b) = (a = b)"
| "js_loose_eq x y =
     (case (ToNumber x, ToNumber y) of (Some a, Some b) \<Rightarrow> a = b | _ \<Rightarrow> False)"

subsection \<open>evaluateOperators and evaluateConditions\<close>

text \<open>
  Both return whether the conditions hold together with the lines they write with
  \<open>console.warn\<close>, in order.
\<close>

fun evaluateOperators :: "jsval \<Rightarrow> (string \<times> jsval) list \<Rightarrow> bool \<times> string list" where
  "evaluateOperators v [] = (True, [])"
| "evaluateOperators v ((operator, threshold) # rest) =
     (if operator = ''>'' then
        (if \<not> js_gt v threshold then (False, []) else evaluateOperators v rest)
      else if operator = ''>='' then
        (if \<not> js_ge v threshold then (False, []) else evaluateOperators v rest)
      else if operator = ''<'' then
        (if \<not> js_lt v threshold then (False, []) else evaluateOperators v rest)
      else if operator = ''<='' then
        (if \<not> js_le v threshold then (False, []) else evaluateOperators v rest)
      else if operator = ''=='' then
        (if \<not> js_loose_eq v threshold then (False, []) else evaluateOperators v rest)
      else if operator = ''!='' then
        (if js_loose_eq v threshold then (False, []) else evaluateOperators v rest)
      else (False, [''Unknown operator: '' @ operator]))"

fun evaluateConditions :: "trigger \<Rightarrow> signals \<Rightarrow> bool \<times> string list" where
  "evaluateConditions [] sigs = (True, [])"
| "evaluateConditions ((key, cond) # rest) sigs =
     (case sigs key of
        None \<Rightarrow> (False, [])
      | Some signalValue \<Rightarrow>
          if signalValue = JNull then (False, [])
          else
            (case cond of
               CStr s \<Rightarrow>
                 if signalValue \<noteq> JStr s then (False, []) else evaluateConditions rest sigs
             | CBool b \<Rightarrow>
                 if signalValue \<noteq> JBool b then (False, []) else evaluateConditions rest sigs
             | CNum n \<Rightarrow>
                 if signalValue \<noteq> JNum n then (False, []) else evaluateConditions rest sigs
             | CObj operators \<Rightarrow>
                 (case evaluateOperators signalValue operators of
                    (ok, warned) \<Rightarrow>
                      if \<not> ok then (False, warned)
                      else (case evaluateConditions rest sigs of
                              (res, warned') \<Rightarrow> (res, warned @ warned')))))"

subsection \<open>The rule set and the engine\<close>

text \<open>
  A hypothesis of the working copy: \<open>{score, eliminated}\<close>. The rule-set document gives a
  hypothesis its initial score only, so the flag of a fresh copy is unset.
\<close>

record hypothesis =
  score :: rat
  eliminated :: bool

text \<open>
  An elimination rule \<open>{id, if, eliminate, explanation}\<close> and a scoring rule
  \<open>{id, if, then, explanation}\<close>; \<open>then\<close> in the order of its entries.
\<close>

record elimination_rule =
  er_id :: string
  er_if :: trigger
  eliminate :: "string list"
  er_explanation :: string

record scoring_rule =
  sr_id :: string
  sr_if :: trigger
  sr_then :: "(string \<times> rat) list"
  sr_explanation :: string

text \<open>
  The rule set: \<open>hypotheses\<close> (name to initial score), \<open>elimination_rules\<close>, \<open>rules\<close> and
  \<open>next_steps\<close>. \<open>hypotheses\<close> is the list of the object's entries in the order the rule-set
  document declares them. A name is looked up among these entries only: the members every
  object inherits (\<open>constructor\<close>, \<open>toString\<close>, ...) are left out of the model.
\<close>

record ruleset =
  rs_hypotheses :: "(string \<times> rat) list"
  rs_elimination_rules :: "elimination_rule list"
  rs_rules :: "scoring_rule list"
  rs_next_steps :: "(string \<times> string list) list"

datatype rule_type = elimination | scoring

record applied_rule =
  ar_id :: string
  ar_type :: rule_type
  ar_explanation :: string
  ar_scores :: "(string \<times> rat) list option"

text \<open>
  The engine object, with the console it warns to as a further field (the lines written so
  far).
\<close>

record engine =
  rules :: ruleset
  hypotheses :: "(string \<times> hypothesis) list"
  eliminatedCauses :: "string list"
  appliedRules :: "applied_rule list"
  console :: "string list"

text \<open>
  The order in which an object lists its own keys, for \<open>Object.entries\<close> and for
  \<open>JSON.stringify\<close> alike: the names that are array indices (canonical decimal numbers up
  to \<open>2^32 - 2\<close>) in ascending numeric order first, then the other names in the order they
  were declared.
\<close>

definition is_array_index :: "string \<Rightarrow> bool" where
  "is_array_index s =
     (s \<noteq> [] \<and> list_all is_digit s \<and> (s = ''0'' \<or> hd s \<noteq> CHR ''0'')
      \<and> digits_value 0 s \<le> 4294967294)"

definition object_entries :: "(string \<times> 'a) list \<Rightarrow> (string \<times> 'a) list" where
  "object_entries xs =
     sort_key (\<lambda>(name, v). digits_value 0 name) (filter (\<lambda>(name, v). is_array_index name) xs)
     @ filter (\<lambda>(name, v). \<not> is_array_index name) xs"

text \<open>
  \<open>JSON.parse(JSON.stringify(rules.hypotheses))\<close>: a fresh copy of the initial scores, its
  entries in the order the object lists them; the working copy keeps that order.
\<close>

definition deep_copy :: "(string \<times> rat) list \<Rightarrow> (string \<times> hypothesis) list" where
  "deep_copy hs =
     map (\<lambda>(name, s). (name, \<lparr>score = s, eliminated = False\<rparr>)) (object_entries hs)"

text \<open>The constructor, given the console of the program.\<close>

definition DiagnosticEngine :: "ruleset \<Rightarrow> string list \<Rightarrow> engine" where
  "DiagnosticEngine rs out =
     \<lparr>rules = rs, hypotheses = deep_copy (rs_hypotheses rs),
      eliminatedCauses = [], appliedRules = [], console = out\<rparr>"

subsection \<open>applyEliminationRules\<close>

text \<open>The inner loop over \<open>rule.eliminate\<close>.\<close>

fun eliminate_loop :: "string list \<Rightarrow> engine \<Rightarrow> engine" where
  "eliminate_loop [] e = e"
| "eliminate_loop (h # hs) e =
     eliminate_loop hs
       (case map_of (hypotheses e) h of
          None \<Rightarrow> e
        | Some d \<Rightarrow>
            e\<lparr>hypotheses := AList.update h (d\<lparr>score := 0, eliminated := True\<rparr>) (hypotheses e),
              eliminatedCauses :=
                (if h \<in> set (eliminatedCauses e) then eliminatedCauses e
                 else eliminatedCauses e @ [h])\<rparr>)"

fun elimination_rules_loop :: "elimination_rule list \<Rightarrow> signals \<Rightarrow> engine \<Rightarrow> engine" where
  "elimination_rules_loop [] sigs e = e"
| "elimination_rules_loop (rule # rest) sigs e =
     (case evaluateConditions (er_if rule) sigs of
        (matched, warned) \<Rightarrow>
          (let e1 = e\<lparr>console := console e @ warned\<rparr>
           in elimination_rules_loop rest sigs
                (if matched then
                   (let e2 = eliminate_loop (eliminate rule) e1
                    in e2\<lparr>appliedRules := appliedRules e2
                             @ [\<lparr>ar_id = er_id rule, ar_type = elimination,
                                  ar_explanation = er_explanation rule, ar_scores = None\<rparr>]\<rparr>)
                 else e1)))"

definition applyEliminationRules :: "signals \<Rightarrow> engine \<Rightarrow> engine" where
  "applyEliminationRules sigs e = elimination_rules_loop (rs_elimination_rules (rules e)) sigs e"

subsection \<open>applyScoringRules\<close>

text \<open>The inner loop over the entries of \<open>rule.then\<close>.\<close>

fun then_loop :: "(string \<times> rat) list \<Rightarrow> (string \<times> hypothesis) list \<Rightarrow> (string \<times> hypothesis) list" where
  "then_loop [] hyps = hyps"
| "then_loop ((h, scoreChange) # rest) hyps =
     then_loop rest
       (case map_of hyps h of
          None \<Rightarrow> hyps
        | Some d \<Rightarrow>
            if eliminated d then hyps
            else (let d' = d\<lparr>score := score d + scoreChange\<rparr>
                  in AList.update h (if score d' < 0 then d'\<lparr>score := 0\<rparr> else d') hyps))"

fun scoring_rules_loop :: "scoring_rule list \<Rightarrow> signals \<Rightarrow> engine \<Rightarrow> engine" where
  "scoring_rules_loop [] sigs e = e"
| "scoring_rules_loop (rule # rest) sigs e =
     (case evaluateConditions (sr_if rule) sigs of
        (matched, warned) \<Rightarrow>
          (let e1 = e\<lparr>console := console e @ warned\<rparr>
           in scoring_rules_loop rest sigs
                (if matched then
                   e1\<lparr>hypotheses := then_loop (sr_then rule) (hypotheses e1),
                      appliedRules := appliedRules e1
                        @ [\<lparr>ar_id = sr_id rule, ar_type = scoring,
                             ar_explanation = sr_explanation rule,
                             ar_scores = Some (sr_then rule)\<rparr>]\<rparr>
                 else e1)))"

definition applyScoringRules :: "signals \<Rightarrow> engine \<Rightarrow> engine" where
  "applyScoringRules sigs e = scoring_rules_loop (rs_rules (rules e)) sigs e"

subsection \<open>calculateResult and analyze\<close>

text \<open>
  An entry of \<open>normalizedHypotheses\<close>: \<open>{name, score, confidence_percent}\<close>. The share
  \<open>score / total * 100\<close> is computed here in exact arithmetic and the code computes it in
  doubles, so a percentage of the model can differ by one from the code's where the share is
  next to a half (29 of 200 is exactly 14.5 and 14.499999999999998 as a double). The
  properties below are about the order of the list and do not depend on the values of the
  percentages.
\<close>

record normalized =
  h_name :: string
  h_score :: rat
  h_confidence_percent :: int

text \<open>
  The result object. The branch for a total of 0 builds it without \<open>raw_score\<close> and
  \<open>all_hypotheses\<close>.
\<close>

record result =
  primary_cause :: string
  confidence_percent :: int
  confidence_level :: string
  raw_score :: "rat option"
  evidence :: "string list"
  eliminated_causes :: "string list"
  next_steps :: "string list"
  all_hypotheses :: "normalized list option"
  all_scores :: "(string \<times> hypothesis) list"
  applied_rules :: "applied_rule list"

datatype error = TypeError

text \<open>\<open>Math.round\<close>: the nearest integer, a half going up.\<close>

definition Math_round :: "rat \<Rightarrow> int" where
  "Math_round x = \<lfloor>x + 1 / 2\<rfloor>"

definition activeHypotheses :: "engine \<Rightarrow> (string \<times> rat) list" where
  "activeHypotheses e =
     map (\<lambda>(name, d). (name, score d)) (filter (\<lambda>(name, d). \<not> eliminated d) (hypotheses e))"

definition totalScore :: "engine \<Rightarrow> rat" where
  "totalScore e = foldl (\<lambda>sum h. sum + snd h) 0 (activeHypotheses e)"

definition normalizedHypotheses :: "engine \<Rightarrow> normalized list" where
  "normalizedHypotheses e =
     map (\<lambda>(name, s). \<lparr>h_name = name, h_score = s,
                        h_confidence_percent = Math_round ((s / totalScore e) * 100)\<rparr>)
       (activeHypotheses e)"

text \<open>
  \<open>sort((a, b) => b.confidence_percent - a.confidence_percent)\<close>: the sort of the language
  is stable, so it is the stable sort by descending \<open>confidence_percent\<close>.
\<close>

definition sort_by_confidence :: "normalized list \<Rightarrow> normalized list" where
  "sort_by_confidence hs = sort_key (\<lambda>h. - h_confidence_percent h) hs"

definition evidence_of :: "applied_rule list \<Rightarrow> string list" where
  "evidence_of rs = map ar_explanation (filter (\<lambda>r. ar_type r = scoring) rs)"

definition calculateResult :: "engine \<Rightarrow> error + result" where
  "calculateResult e =
     (if totalScore e = 0 then
        Inr \<lparr>primary_cause = ''unknown'',
             confidence_percent = 0,
             confidence_level = ''Low'',
             raw_score = None,
             evidence = evidence_of (appliedRules e),
             eliminated_causes = eliminatedCauses e,
             next_steps = [''Collect more diagnostic data'', ''Run additional tests''],
             all_hypotheses = None,
             all_scores = hypotheses e,
             applied_rules = appliedRules e\<rparr>
      else
        (case sort_by_confidence (normalizedHypotheses e) of
           [] \<Rightarrow> Inl TypeError
         | primaryCause # others \<Rightarrow>
             Inr \<lparr>primary_cause = h_name primaryCause,
                  confidence_percent = h_confidence_percent primaryCause,
                  confidence_level =
                    (if h_confidence_percent primaryCause \<ge> 65 then ''High''
                     else if h_confidence_percent primaryCause \<ge> 40 then ''Medium''
                     else ''Low''),
                  raw_score = Some (h_score primaryCause),
                  evidence = evidence_of (appliedRules e),
                  eliminated_causes = eliminatedCauses e,
                  next_steps =
                    (case map_of (rs_next_steps (rules e)) (h_name primaryCause) of
                       Some steps \<Rightarrow> steps
                     | None \<Rightarrow> [''Review system logs'', ''Run additional diagnostics'',
                                 ''Contact support if issue persists'']),
                  all_hypotheses = Some (primaryCause # others),
                  all_scores = hypotheses e,
                  applied_rules = appliedRules e\<rparr>))"

text \<open>The reset at the top of \<open>analyze\<close>.\<close>

definition reset :: "engine \<Rightarrow> engine" where
  "reset e = e\<lparr>hypotheses := deep_copy (rs_hypotheses (rules e)),
               eliminatedCauses := [], appliedRules := []\<rparr>"

text \<open>\<open>analyze\<close> returns the result and leaves the engine as the stages made it.\<close>

definition analyze :: "engine \<Rightarrow> signals \<Rightarrow> (error + result) \<times> engine" where
  "analyze e sigs =
     (let e' = applyScoringRules sigs (applyEliminationRules sigs (reset e))
      in (calculateResult e', e'))"

subsection \<open>Vocabulary of the properties\<close>

text \<open>The operator symbols the \<open>switch\<close> of \<open>evaluateOperators\<close> has a case for.\<close>

definition known_operators :: "string list" where
  "known_operators = [''>'', ''>='', ''<'', ''<='', ''=='', ''!='']"

text \<open>The value of a scalar condition; an operator object has none.\<close>

fun scalar_value :: "condition \<Rightarrow> jsval option" where
  "scalar_value (CStr s) = Some (JStr s)"
| "scalar_value (CBool b) = Some (JBool b)"
| "scalar_value (CNum n) = Some (JNum n)"
| "scalar_value (CObj operators) = None"


definition nonneg_scores :: "(string \<times> hypothesis) list \<Rightarrow> bool" where
  "nonneg_scores hyps = list_all (\<lambda>(name, d). 0 \<le> score d) hyps"

subsection \<open>Inputs for the examples\<close>

text \<open>
  A small rule set: a fast disk rules the disk out; a slow DNS lookup raises \<open>dns\<close>, lowers
  \<open>network\<close> and would raise \<open>disk\<close> by a large amount.
\<close>

definition dns_rules :: ruleset where
  "dns_rules =
     \<lparr>rs_hypotheses = [(''dns'', 10), (''network'', 10), (''disk'', 5)],
      rs_elimination_rules =
        [\<lparr>er_id = ''disk_fast'', er_if = [(''disk_latency_ms'', CObj [(''<'', JNum 50)])],
          eliminate = [''disk''], er_explanation = ''Disk latency is low''\<rparr>],
      rs_rules =
        [\<lparr>sr_id = ''dns_slow'', sr_if = [(''dns_latency_ms'', CObj [(''>'', JNum 200)])],
          sr_then = [(''dns'', 30), (''disk'', 1000), (''network'', - 20)],
          sr_explanation = ''DNS lookups are slow''\<rparr>],
      rs_next_steps = [(''dns'', [''Check the resolver''])]\<rparr>"

definition dns_signals :: signals where
  "dns_signals = [''dns_latency_ms'' \<mapsto> JNum 420, ''disk_latency_ms'' \<mapsto> JNum 35]"

text \<open>
  A hypothesis with score 10 and two scoring rules that lower it by 5 and by 20.
\<close>

definition clamp_rules :: ruleset where
  "clamp_rules =
     \<lparr>rs_hypotheses = [(''cpu'', 10)],
      rs_elimination_rules = [],
      rs_rules =
        [\<lparr>sr_id = ''idle'', sr_if = [(''cpu_usage_percent'', CObj [(''<'', JNum 50)])],
          sr_then = [(''cpu'', - 5)], sr_explanation = ''CPU is mostly idle''\<rparr>,
         \<lparr>sr_id = ''low_load'', sr_if = [(''load_average'', CObj [(''<'', JNum 2)])],
          sr_then = [(''cpu'', - 20)], sr_explanation = ''Load average is low''\<rparr>],
      rs_next_steps = []\<rparr>"

definition clamp_signals :: signals where
  "clamp_signals = [''cpu_usage_percent'' \<mapsto> JNum 22, ''load_average'' \<mapsto> JNum (11 / 10)]"

text \<open>Four hypotheses without rules: two pairs of equal scores.\<close>

definition tie_rules :: ruleset where
  "tie_rules =
     \<lparr>rs_hypotheses = [(''dns'', 1), (''network'', 2), (''disk'', 2), (''cpu'', 1)],
      rs_elimination_rules = [], rs_rules = [], rs_next_steps = []\<rparr>"

text \<open>
  A scoring rule whose trigger uses the operator \<open>>>\<close>, alone and after a comparison that
  fails on the signal below.
\<close>

definition unknown_operator_rules :: ruleset where
  "unknown_operator_rules =
     \<lparr>rs_hypotheses = [(''dns'', 10)],
      rs_elimination_rules = [],
      rs_rules =
        [\<lparr>sr_id = ''dns_slow'', sr_if = [(''dns_latency_ms'', CObj [(''>>'', JNum 5)])],
          sr_then = [(''dns'', 30)], sr_explanation = ''DNS lookups are slow''\<rparr>],
      rs_next_steps = []\<rparr>"

definition shadowed_operator_rules :: ruleset where
  "shadowed_operator_rules =
     \<lparr>rs_hypotheses = [(''dns'', 10)],
      rs_elimination_rules = [],
      rs_rules =
        [\<lparr>sr_id = ''dns_slow'',
          sr_if = [(''dns_latency_ms'', CObj [(''<'', JNum 0), (''>>'', JNum 5)])],
          sr_then = [(''dns'', 30)], sr_explanation = ''DNS lookups are slow''\<rparr>],
      rs_next_steps = []\<rparr>"

definition latency_signals :: signals where
  "latency_signals = [''dns_latency_ms'' \<mapsto> JNum 420]"

text \<open>Three hypotheses of equal score, two of them named by array indices.\<close>

definition index_rules :: ruleset where
  "index_rules =
     \<lparr>rs_hypotheses = [(''b'', 1), (''2'', 1), (''1'', 1)],
      rs_elimination_rules = [], rs_rules = [], rs_next_steps = []\<rparr>"


section \<open>Properties of the condition evaluator\<close>

lemma evaluateOperators_ok_silent:
  "fst (evaluateOperators v ops) \<Longrightarrow> snd (evaluateOperators v ops) = []"
  by (induction ops) (auto split: if_splits)

lemma evaluateOperators_append:
  "evaluateOperators v (pre @ post) =
     (if fst (evaluateOperators v pre) then evaluateOperators v post else evaluateOperators v pre)"
  by (induction pre) (auto split: if_splits)

lemma evaluateConditions_step:
  assumes "sigs key = Some v" and "v \<noteq> JNull"
  shows "evaluateConditions ((key, cond) # rest) sigs =
     (case cond of
        CStr s \<Rightarrow> if v \<noteq> JStr s then (False, []) else evaluateConditions rest sigs
      | CBool b \<Rightarrow> if v \<noteq> JBool b then (False, []) else evaluateConditions rest sigs
      | CNum n \<Rightarrow> if v \<noteq> JNum n then (False, []) else evaluateConditions rest sigs
      | CObj operators \<Rightarrow>
          if \<not> fst (evaluateOperators v operators) then (False, snd (evaluateOperators v operators))
          else evaluateConditions rest sigs)"
proof (cases cond)
  case (CObj operators)
  show ?thesis
    using evaluateOperators_ok_silent [of v operators] assms
    by (cases "evaluateOperators v operators") (auto simp: CObj)
qed (use assms in auto)

lemma evaluateConditions_ok_silent:
  "fst (evaluateConditions trig sigs) \<Longrightarrow> snd (evaluateConditions trig sigs) = []"
proof (induction trig)
  case Nil
  then show ?case by simp
next
  case (Cons kc trig)
  obtain key cond where kc: "kc = (key, cond)" by (cases kc)
  show ?case
  proof (cases "sigs key = None \<or> sigs key = Some JNull")
    case True
    with Cons.prems show ?thesis unfolding kc by auto
  next
    case False
    then obtain v where v: "sigs key = Some v" "v \<noteq> JNull" by auto
    have step: "evaluateConditions ((key, cond) # trig) sigs = 
     (case cond of
        CStr s \<Rightarrow> if v \<noteq> JStr s then (False, []) else evaluateConditions trig sigs
      | CBool b \<Rightarrow> if v \<noteq> JBool b then (False, []) else evaluateConditions trig sigs
      | CNum n \<Rightarrow> if v \<noteq> JNum n then (False, []) else evaluateConditions trig sigs
      | CObj operators \<Rightarrow>
          if \<not> fst (evaluateOperators v operators) then (False, snd (evaluateOperators v operators))
          else evaluateConditions trig sigs)"
      using v by (rule evaluateConditions_step [of sigs key v])
    from Cons.prems Cons.IH show ?thesis
      unfolding kc step by (cases cond) (auto split: if_splits)
  qed
qed

lemma evaluateConditions_missing:
  "sigs key = None \<or> sigs key = Some JNull \<Longrightarrow> evaluateConditions ((key, cond) # rest) sigs = (False, [])"
  by auto

lemma evaluateConditions_append:
  "evaluateConditions (pre @ post) sigs =
     (if fst (evaluateConditions pre sigs) then evaluateConditions post sigs
      else evaluateConditions pre sigs)"
proof (induction pre)
  case Nil
  then show ?case by simp
next
  case (Cons kc pre)
  obtain key cond where kc: "kc = (key, cond)" by (cases kc)
  show ?case
  proof (cases "sigs key = None \<or> sigs key = Some JNull")
    case True
    then show ?thesis unfolding kc append_Cons by (simp only: evaluateConditions_missing) simp
  next
    case False
    then obtain v where v: "sigs key = Some v" "v \<noteq> JNull" by auto
    show ?thesis
      unfolding kc append_Cons
      using Cons.IH by (cases cond) (auto simp: evaluateConditions_step [of sigs key v, OF v] simp del: evaluateConditions.simps)
  qed
qed


lemma evaluateConditions_absent_False:
  "(key, cond) \<in> set trig \<Longrightarrow> sigs key = None \<or> sigs key = Some JNull \<Longrightarrow>
   \<not> fst (evaluateConditions trig sigs)"
proof (induction trig)
  case Nil
  then show ?case by simp
next
  case (Cons kc trig)
  obtain k c where kc: "kc = (k, c)" by (cases kc)
  show ?case
  proof (cases "sigs k = None \<or> sigs k = Some JNull")
    case True
    then show ?thesis unfolding kc by auto
  next
    case False
    then obtain v where v: "sigs k = Some v" "v \<noteq> JNull" by auto
    from False Cons.prems have "(key, cond) \<in> set trig" unfolding kc by auto
    with Cons have "\<not> fst (evaluateConditions trig sigs)" by simp
    then show ?thesis
      unfolding kc
      by (cases c) (auto simp: evaluateConditions_step [of sigs k v, OF v] simp del: evaluateConditions.simps)
  qed
qed

lemma evaluateOperators_unknown_False:
  "(operator, threshold) \<in> set ops \<Longrightarrow> operator \<notin> set known_operators \<Longrightarrow>
   \<not> fst (evaluateOperators v ops)"
  by (induction ops) (auto simp: known_operators_def split: if_splits)

lemma evaluateOperators_unknown_reached:
  "operator \<notin> set known_operators \<Longrightarrow>
   evaluateOperators v ((operator, threshold) # post) = (False, [''Unknown operator: '' @ operator])"
  by (simp add: known_operators_def)

lemma evaluateOperators_reaches_unknown:
  assumes "operator \<notin> set known_operators" and "fst (evaluateOperators v pre)"
  shows "evaluateOperators v (pre @ (operator, threshold) # post)
           = (False, [''Unknown operator: '' @ operator])"
  using assms(2)
  by (simp only: evaluateOperators_append if_True evaluateOperators_unknown_reached [OF assms(1)])

lemma evaluateConditions_unknown_False:
  assumes "operator \<notin> set known_operators"
  shows "\<not> fst (evaluateConditions
                 (tpre @ (key, CObj (pre @ (operator, threshold) # post)) # tpost) sigs)"
proof (cases "sigs key = None \<or> sigs key = Some JNull")
  case True
  then show ?thesis
    using evaluateConditions_absent_False
      [of key "CObj (pre @ (operator, threshold) # post)"
          "tpre @ (key, CObj (pre @ (operator, threshold) # post)) # tpost" sigs]
    by simp
next
  case False
  then obtain v where v: "sigs key = Some v" "v \<noteq> JNull" by auto
  have "\<not> fst (evaluateOperators v (pre @ (operator, threshold) # post))"
    using assms by (intro evaluateOperators_unknown_False [of operator threshold]) simp_all
  then have "\<not> fst (evaluateConditions
                 ((key, CObj (pre @ (operator, threshold) # post)) # tpost) sigs)"
    by (simp add: evaluateConditions_step [of sigs key v, OF v] del: evaluateConditions.simps)
  then show ?thesis by (simp add: evaluateConditions_append del: evaluateConditions.simps)
qed

lemma evaluateConditions_reaches_unknown:
  assumes "operator \<notin> set known_operators" and "fst (evaluateConditions tpre sigs)"
    and "sigs key = Some v" and "v \<noteq> JNull" and "fst (evaluateOperators v pre)"
  shows "evaluateConditions (tpre @ (key, CObj (pre @ (operator, threshold) # post)) # tpost) sigs
           = (False, [''Unknown operator: '' @ operator])"
proof -
  have "evaluateConditions ((key, CObj (pre @ (operator, threshold) # post)) # tpost) sigs
          = (False, [''Unknown operator: '' @ operator])"
    using evaluateOperators_reaches_unknown [OF assms(1,5), of threshold post]
    by (simp add: evaluateConditions_step [of sigs key v, OF assms(3,4)]
        del: evaluateConditions.simps)
  with assms(2) show ?thesis
    by (simp add: evaluateConditions_append del: evaluateConditions.simps)
qed

text \<open>
  C9: a trigger that names a key absent from the signals does not match, and the absent key
  writes nothing to the console: evaluation is a total function (nothing is raised), its
  answer is \<open>False\<close>, and the lines written are those of the entries before the first absent
  key (warnings about unknown operators there), none for the absent key.
\<close>

theorem missing_signal_fails_trigger:
  assumes "(key, cond) \<in> set trig" and "sigs key = None"
  shows "evaluateConditions trig sigs =
           (False, snd (evaluateConditions (takeWhile (\<lambda>(k, c). sigs k \<noteq> None) trig) sigs))"
proof -
  let ?P = "\<lambda>(k, c). sigs k \<noteq> None"
  let ?pre = "takeWhile ?P trig" and ?post = "dropWhile ?P trig"
  have split: "trig = ?pre @ ?post" by simp
  from assms have "\<not> ?P (key, cond)" by simp
  with assms(1) have "\<not> (\<forall>x\<in>set trig. ?P x)" by blast
  then have "?post \<noteq> []" by (simp only: dropWhile_eq_Nil_conv not_False_eq_True)
  then obtain k c post where post: "?post = (k, c) # post" by (cases ?post) auto
  then have "\<not> ?P (k, c)" using hd_dropWhile [of ?P trig] by (metis list.sel(1) \<open>?post \<noteq> []\<close>)
  then have k: "sigs k = None" by simp
  have post_False: "evaluateConditions ?post sigs = (False, [])" unfolding post using k by simp
  have app: "evaluateConditions trig sigs =
      (if fst (evaluateConditions ?pre sigs) then evaluateConditions ?post sigs
       else evaluateConditions ?pre sigs)"
    using evaluateConditions_append [of ?pre ?post sigs] by simp
  show ?thesis
  proof (cases "fst (evaluateConditions ?pre sigs)")
    case True
    then have "snd (evaluateConditions ?pre sigs) = []" by (rule evaluateConditions_ok_silent)
    with True app post_False show ?thesis by simp
  next
    case False
    then have "evaluateConditions ?pre sigs = (False, snd (evaluateConditions ?pre sigs))"
      by (cases "evaluateConditions ?pre sigs") simp
    with False app show ?thesis by simp
  qed
qed

theorem missing_signal_fails_trigger_witness:
  "(''dns_latency_ms'', CObj [(''>'', JNum 200)])
     \<in> set [(''affected_users'', CStr ''multiple''), (''dns_latency_ms'', CObj [(''>'', JNum 200)])]
   \<and> [''affected_users'' \<mapsto> JStr ''multiple''] ''dns_latency_ms'' = None
   \<and> evaluateConditions
         [(''affected_users'', CStr ''multiple''), (''dns_latency_ms'', CObj [(''>'', JNum 200)])]
         [''affected_users'' \<mapsto> JStr ''multiple''] = (False, [])"
  using missing_signal_fails_trigger
    [of "''dns_latency_ms''" "CObj [(''>'', JNum 200)]"
        "[(''affected_users'', CStr ''multiple''), (''dns_latency_ms'', CObj [(''>'', JNum 200)])]"
        "[''affected_users'' \<mapsto> JStr ''multiple'']"]
  by simp

text \<open>
  C10: a key bound to \<open>null\<close> makes the trigger fail exactly as an absent key does: the
  answer is \<open>False\<close>, and answer and console lines are those of the same signals with the key
  removed, whatever the condition is.
\<close>

theorem null_signal_as_missing:
  assumes "(key, cond) \<in> set trig" and "sigs key = Some JNull"
  shows "fst (evaluateConditions trig sigs) = False
       \<and> evaluateConditions trig sigs = evaluateConditions trig (sigs(key := None))"
proof
  show "fst (evaluateConditions trig sigs) = False"
    using evaluateConditions_absent_False [of key cond trig sigs] assms by simp
  show "evaluateConditions trig sigs = evaluateConditions trig (sigs(key := None))"
  proof (induction trig)
    case Nil
    show ?case by simp
  next
    case (Cons kc trig)
    obtain k c where kc: "kc = (k, c)" by (cases kc)
    let ?sigs' = "sigs(key := None)"
    show ?case
    proof (cases "sigs k = None \<or> sigs k = Some JNull")
      case True
      then show ?thesis unfolding kc by auto
    next
      case False
      then obtain v where v: "sigs k = Some v" "v \<noteq> JNull" by auto
      with assms(2) have "k \<noteq> key" by auto
      with v have v': "?sigs' k = Some v" by simp
      show ?thesis
        unfolding kc evaluateConditions_step [of sigs k v, OF v]
          evaluateConditions_step [of ?sigs' k v, OF v' v(2)] Cons.IH ..
    qed
  qed
qed

theorem null_signal_as_missing_witness:
  "(''vpn_in_use'', CObj [(''=='', JNull)]) \<in> set [(''vpn_in_use'', CObj [(''=='', JNull)])]
   \<and> [''vpn_in_use'' \<mapsto> JNull] ''vpn_in_use'' = Some JNull
   \<and> js_loose_eq JNull JNull
   \<and> fst (evaluateConditions [(''vpn_in_use'', CObj [(''=='', JNull)])] [''vpn_in_use'' \<mapsto> JNull])
       = False"
  using null_signal_as_missing
    [of "''vpn_in_use''" "CObj [(''=='', JNull)]" "[(''vpn_in_use'', CObj [(''=='', JNull)])]"
        "[''vpn_in_use'' \<mapsto> JNull]"]
  by simp

text \<open>
  C4, as the code has it: for a scalar condition and a key that is present, the entry is
  satisfied exactly when the signal is strictly equal to the condition (\<open>!==\<close>: same type
  and same value, no conversion); evaluation then goes on with the rest of the trigger.
\<close>

theorem scalar_condition_strict_equality:
  assumes "sigs key = Some v" and "scalar_value cond = Some c"
  shows "evaluateConditions ((key, cond) # rest) sigs =
           (if v = c then evaluateConditions rest sigs else (False, []))
       \<and> fst (evaluateConditions [(key, cond)] sigs) = (v = c)"
  using assms by (cases cond) auto

theorem scalar_condition_strict_equality_witness:
  "[''timing_pattern'' \<mapsto> JStr ''always''] ''timing_pattern'' = Some (JStr ''always'')
   \<and> scalar_value (CStr ''always'') = Some (JStr ''always'')
   \<and> fst (evaluateConditions [(''timing_pattern'', CStr ''always'')]
            [''timing_pattern'' \<mapsto> JStr ''always'']) = True"
  using scalar_condition_strict_equality
    [of "[''timing_pattern'' \<mapsto> JStr ''always'']" "''timing_pattern''" "JStr ''always''"
        "CStr ''always''" "JStr ''always''" "[]"]
  by simp

text \<open>
  C4 as stated fails: the number 5 is loosely equal to the string \<open>"5"\<close>, and the scalar
  condition \<open>"5"\<close> is not satisfied by the signal 5.
\<close>

theorem scalar_condition_loose_counterexample:
  "js_loose_eq (JNum 5) (JStr ''5'')
   \<and> fst (evaluateConditions [(''dns_latency_ms'', CStr ''5'')] [''dns_latency_ms'' \<mapsto> JNum 5]) = False"
  by (simp add: StringToNumber_def trim_def is_space_def unsigned_to_number_def is_digit_def)

section \<open>Properties of the engine\<close>

subsection \<open>Writes to the working copy\<close>

lemma map_of_update:
  "map_of (AList.update h v hyps) k = (if k = h then Some v else map_of hyps k)"
  by (simp add: update_conv')

lemma keys_update:
  "map_of hyps h = Some d \<Longrightarrow> map fst (AList.update h v hyps) = map fst hyps"
  by (induction hyps) (auto split: if_splits)

lemma set_update_subset:
  "set (AList.update h v hyps) \<subseteq> insert (h, v) (set hyps)"
  by (induction hyps) auto

subsection \<open>The elimination stage\<close>

lemma eliminate_loop_fields [simp]:
  "rules (eliminate_loop hs e) = rules e"
  "console (eliminate_loop hs e) = console e"
  "appliedRules (eliminate_loop hs e) = appliedRules e"
  by (induction hs arbitrary: e) (auto split: option.splits)


lemma eliminate_loop_keys:
  "map fst (hypotheses (eliminate_loop hs e)) = map fst (hypotheses e)"
  by (induction hs arbitrary: e) (auto split: option.splits simp: keys_update)

lemma elimination_rules_loop_fields [simp]:
  "rules (elimination_rules_loop rs sigs e) = rules e"
  by (induction rs arbitrary: e) (auto split: prod.splits simp: Let_def)

lemma elimination_rules_loop_keys:
  "map fst (hypotheses (elimination_rules_loop rs sigs e)) = map fst (hypotheses e)"
  by (induction rs arbitrary: e) (auto split: prod.splits simp: Let_def eliminate_loop_keys)

lemma elimination_rules_loop_console:
  "console (elimination_rules_loop rs sigs e) =
     console e @ concat (map (\<lambda>r. snd (evaluateConditions (er_if r) sigs)) rs)"
  by (induction rs arbitrary: e) (auto split: prod.splits simp: Let_def)

lemma elimination_rules_loop_applied:
  "appliedRules (elimination_rules_loop rs sigs e) =
     appliedRules e @
     map (\<lambda>r. \<lparr>ar_id = er_id r, ar_type = elimination, ar_explanation = er_explanation r,
               ar_scores = None\<rparr>)
       (filter (\<lambda>r. fst (evaluateConditions (er_if r) sigs)) rs)"
  by (induction rs arbitrary: e) (auto split: prod.splits simp: Let_def)


subsection \<open>The scoring stage\<close>

lemma then_loop_keys:
  "map fst (then_loop ths hyps) = map fst hyps"
  by (induction ths arbitrary: hyps) (auto split: option.splits simp: keys_update Let_def)

lemma scoring_rules_loop_fields [simp]:
  "rules (scoring_rules_loop rs sigs e) = rules e"
  "eliminatedCauses (scoring_rules_loop rs sigs e) = eliminatedCauses e"
  by (induction rs arbitrary: e) (auto split: prod.splits simp: Let_def)

lemma scoring_rules_loop_keys:
  "map fst (hypotheses (scoring_rules_loop rs sigs e)) = map fst (hypotheses e)"
  by (induction rs arbitrary: e) (auto split: prod.splits simp: Let_def then_loop_keys)

lemma scoring_rules_loop_console:
  "console (scoring_rules_loop rs sigs e) =
     console e @ concat (map (\<lambda>r. snd (evaluateConditions (sr_if r) sigs)) rs)"
  by (induction rs arbitrary: e) (auto split: prod.splits simp: Let_def)

lemma scoring_rules_loop_applied:
  "appliedRules (scoring_rules_loop rs sigs e) =
     appliedRules e @
     map (\<lambda>r. \<lparr>ar_id = sr_id r, ar_type = scoring, ar_explanation = sr_explanation r,
               ar_scores = Some (sr_then r)\<rparr>)
       (filter (\<lambda>r. fst (evaluateConditions (sr_if r) sigs)) rs)"
  by (induction rs arbitrary: e) (auto split: prod.splits simp: Let_def)




lemma rules_analyze [simp]: "rules (snd (analyze e sigs)) = rules e"
  by (simp add: analyze_def Let_def applyScoringRules_def applyEliminationRules_def reset_def)

subsection \<open>Eliminated hypotheses\<close>

lemma set_object_entries: "set (object_entries xs) = set xs"
  by (auto simp: object_entries_def)

lemma object_entries_no_index:
  assumes "list_all (\<lambda>(name, v). \<not> is_array_index name) xs"
  shows "object_entries xs = xs"
proof -
  have "filter (\<lambda>(name, v). is_array_index name) xs = []"
    using assms by (auto simp: list_all_iff filter_empty_conv)
  moreover have "filter (\<lambda>(name, v). \<not> is_array_index name) xs = xs"
    using assms by (auto simp: list_all_iff filter_id_conv)
  ultimately show ?thesis by (simp add: object_entries_def)
qed






lemma deep_copy_not_eliminated:
  "map_of (deep_copy hs) h = Some d \<Longrightarrow> \<not> eliminated d"
  by (auto simp: deep_copy_def dest!: map_of_SomeD)

lemma deep_copy_keys: "map fst (deep_copy hs) = map fst (object_entries hs)"
  by (simp add: deep_copy_def comp_def case_prod_unfold)

lemma eliminate_loop_zero:
  assumes "\<And>h d. map_of (hypotheses e) h = Some d \<Longrightarrow> eliminated d \<Longrightarrow> score d = 0"
    and "map_of (hypotheses (eliminate_loop hs e)) h = Some d" and "eliminated d"
  shows "score d = 0"
  using assms
proof (induction hs arbitrary: e)
  case Nil
  then show ?case by simp
next
  case (Cons x hs)
  show ?case
  proof (cases "map_of (hypotheses e) x")
    case None
    with Cons.prems Cons.IH [of e] show ?thesis by simp
  next
    case (Some dx)
    let ?e' = "e\<lparr>hypotheses := AList.update x (dx\<lparr>score := 0, eliminated := True\<rparr>) (hypotheses e),
              eliminatedCauses :=
                (if x \<in> set (eliminatedCauses e) then eliminatedCauses e
                 else eliminatedCauses e @ [x])\<rparr>"
    have "\<And>h d. map_of (hypotheses ?e') h = Some d \<Longrightarrow> eliminated d \<Longrightarrow> score d = 0"
      using Cons.prems(1) by (auto simp: map_of_update split: if_splits)
    moreover have "map_of (hypotheses (eliminate_loop hs ?e')) h = Some d"
      using Cons.prems(2) Some by simp
    ultimately show ?thesis using Cons.prems(3) by (rule Cons.IH)
  qed
qed

lemma elimination_rules_loop_zero:
  assumes "\<And>h d. map_of (hypotheses e) h = Some d \<Longrightarrow> eliminated d \<Longrightarrow> score d = 0"
    and "map_of (hypotheses (elimination_rules_loop rs sigs e)) h = Some d" and "eliminated d"
  shows "score d = 0"
  using assms
proof (induction rs arbitrary: e)
  case Nil
  then show ?case by simp
next
  case (Cons r rs)
  obtain m w where mw: "evaluateConditions (er_if r) sigs = (m, w)"
    by (cases "evaluateConditions (er_if r) sigs")
  let ?e1 = "e\<lparr>console := console e @ w\<rparr>"
  let ?e2 = "eliminate_loop (eliminate r) ?e1"
  let ?e3 = "?e2\<lparr>appliedRules := appliedRules ?e2
                             @ [\<lparr>ar_id = er_id r, ar_type = elimination,
                                  ar_explanation = er_explanation r, ar_scores = None\<rparr>]\<rparr>"
  show ?case
  proof (cases m)
    case True
    have "\<And>h d. map_of (hypotheses ?e3) h = Some d \<Longrightarrow> eliminated d \<Longrightarrow> score d = 0"
      using eliminate_loop_zero [of ?e1 "eliminate r"] Cons.prems(1) by simp
    moreover have "map_of (hypotheses (elimination_rules_loop rs sigs ?e3)) h = Some d"
      using Cons.prems(2) True by (simp add: mw Let_def)
    ultimately show ?thesis using Cons.prems(3) by (rule Cons.IH)
  next
    case False
    have "\<And>h d. map_of (hypotheses ?e1) h = Some d \<Longrightarrow> eliminated d \<Longrightarrow> score d = 0"
      using Cons.prems(1) by simp
    moreover have "map_of (hypotheses (elimination_rules_loop rs sigs ?e1)) h = Some d"
      using Cons.prems(2) False by (simp add: mw Let_def)
    ultimately show ?thesis using Cons.prems(3) by (rule Cons.IH)
  qed
qed

lemma then_loop_eliminated:
  "map_of hyps h = Some d \<Longrightarrow> eliminated d \<Longrightarrow> map_of (then_loop ths hyps) h = Some d"
proof (induction ths arbitrary: hyps)
  case Nil
  then show ?case by simp
next
  case (Cons t ths)
  obtain x c where t: "t = (x, c)" by (cases t)
  show ?case
    unfolding t then_loop.simps
    by (rule Cons.IH)
       (use Cons.prems in \<open>auto simp: map_of_update Let_def split: option.splits\<close>)
qed

lemma scoring_rules_loop_eliminated:
  "map_of (hypotheses e) h = Some d \<Longrightarrow> eliminated d \<Longrightarrow>
   map_of (hypotheses (scoring_rules_loop rs sigs e)) h = Some d"
proof (induction rs arbitrary: e)
  case Nil
  then show ?case by simp
next
  case (Cons r rs)
  obtain m w where mw: "evaluateConditions (sr_if r) sigs = (m, w)"
    by (cases "evaluateConditions (sr_if r) sigs")
  show ?case
    unfolding scoring_rules_loop.simps mw prod.case Let_def
    by (rule Cons.IH) (use Cons.prems in \<open>auto simp: then_loop_eliminated\<close>)
qed


subsection \<open>The result\<close>

lemma foldl_add_snd:
  "foldl (\<lambda>sum h. sum + snd h) a xs = a + sum_list (map snd xs)" for a :: rat
  by (induction xs arbitrary: a) (auto simp: algebra_simps)

lemma totalScore_sum_list: "totalScore e = sum_list (map snd (activeHypotheses e))"
  by (simp add: totalScore_def foldl_add_snd)

lemma sort_by_confidence_nonempty:
  "totalScore e \<noteq> 0 \<Longrightarrow> sort_by_confidence (normalizedHypotheses e) \<noteq> []"
proof -
  assume "totalScore e \<noteq> 0"
  then have "activeHypotheses e \<noteq> []" by (auto simp: totalScore_sum_list)
  then have "length (sort_by_confidence (normalizedHypotheses e)) \<noteq> 0"
    by (simp add: sort_by_confidence_def normalizedHypotheses_def)
  then show ?thesis by auto
qed

lemma calculateResult_Inr:
  "\<exists>r. calculateResult e = Inr r \<and> all_scores r = hypotheses e
       \<and> applied_rules r = appliedRules e \<and> eliminated_causes r = eliminatedCauses e
       \<and> evidence r = evidence_of (appliedRules e)"
proof (cases "totalScore e = 0")
  case True
  then show ?thesis by (simp add: calculateResult_def)
next
  case False
  then obtain p ps where "sort_by_confidence (normalizedHypotheses e) = p # ps"
    using sort_by_confidence_nonempty [of e]
    by (cases "sort_by_confidence (normalizedHypotheses e)") auto
  with False show ?thesis by (simp add: calculateResult_def)
qed

lemma analyze_Inr:
  "\<exists>r. fst (analyze e sigs) = Inr r \<and> all_scores r = hypotheses (snd (analyze e sigs))
       \<and> applied_rules r = appliedRules (snd (analyze e sigs))
       \<and> eliminated_causes r = eliminatedCauses (snd (analyze e sigs))
       \<and> evidence r = evidence_of (appliedRules (snd (analyze e sigs)))"
  using calculateResult_Inr [of "applyScoringRules sigs (applyEliminationRules sigs (reset e))"]
  by (simp add: analyze_def Let_def)

text \<open>
  C1: a hypothesis that the elimination stage has marked eliminated has score 0 there, no
  list of scoring rules changes its entry, whatever their deltas, and the snapshot the
  analysis ends with (the \<open>all_scores\<close> of the result) holds it with score 0 and
  \<open>eliminated = true\<close>.
\<close>

theorem eliminated_hypothesis_frozen:
  assumes "map_of (hypotheses (applyEliminationRules sigs (reset e))) h = Some d"
    and "eliminated d"
  shows "d = \<lparr>score = 0, eliminated = True\<rparr>
       \<and> (\<forall>rs. map_of (hypotheses (scoring_rules_loop rs sigs
                      (applyEliminationRules sigs (reset e)))) h = Some d)
       \<and> map_of (hypotheses (snd (analyze e sigs))) h = Some d
       \<and> (\<exists>r. fst (analyze e sigs) = Inr r \<and> map_of (all_scores r) h = Some d)"
proof -
  have "score d = 0"
  proof (rule elimination_rules_loop_zero)
    show "map_of (hypotheses (elimination_rules_loop (rs_elimination_rules (rules e)) sigs (reset e))) h
            = Some d"
      using assms(1) by (simp add: applyEliminationRules_def reset_def)
    show "eliminated d" by (rule assms(2))
    show "score d' = 0" if "map_of (hypotheses (reset e)) h' = Some d'" "eliminated d'" for h' d'
      using that deep_copy_not_eliminated [of "rs_hypotheses (rules e)" h' d']
      by (simp add: reset_def)
  qed
  with assms(2) have d: "d = \<lparr>score = 0, eliminated = True\<rparr>" by simp
  have frozen: "map_of (hypotheses (scoring_rules_loop rs sigs
                      (applyEliminationRules sigs (reset e)))) h = Some d" for rs
    using assms by (rule scoring_rules_loop_eliminated)
  have final: "map_of (hypotheses (snd (analyze e sigs))) h = Some d"
    using frozen [of "rs_rules (rules e)"]
    by (simp add: analyze_def Let_def applyScoringRules_def applyEliminationRules_def reset_def)
  from analyze_Inr [of e sigs] final
  have "\<exists>r. fst (analyze e sigs) = Inr r \<and> map_of (all_scores r) h = Some d" by auto
  with d frozen final show ?thesis by blast
qed

theorem eliminated_hypothesis_frozen_witness:
  "map_of (hypotheses (applyEliminationRules dns_signals (reset (DiagnosticEngine dns_rules []))))
     ''disk'' = Some \<lparr>score = 0, eliminated = True\<rparr>
   \<and> eliminated \<lparr>score = 0, eliminated = True\<rparr>
   \<and> map_of (hypotheses (snd (analyze (DiagnosticEngine dns_rules []) dns_signals))) ''disk''
       = Some \<lparr>score = 0, eliminated = True\<rparr>"
proof -
  have h: "map_of (hypotheses (applyEliminationRules dns_signals
             (reset (DiagnosticEngine dns_rules [])))) ''disk''
           = Some \<lparr>score = 0, eliminated = True\<rparr>"
    by (simp add: applyEliminationRules_def reset_def DiagnosticEngine_def dns_rules_def
        dns_signals_def deep_copy_def object_entries_def is_array_index_def is_digit_def)
  from eliminated_hypothesis_frozen [OF h] h show ?thesis by simp
qed

subsection \<open>Scores stay non-negative\<close>

lemma nonneg_scores_update:
  "nonneg_scores hyps \<Longrightarrow> 0 \<le> score v \<Longrightarrow> nonneg_scores (AList.update h v hyps)"
  using set_update_subset [of h v hyps]
  by (auto simp: nonneg_scores_def list_all_iff)

lemma nonneg_scores_deep_copy:
  "list_all (\<lambda>(name, s). 0 \<le> s) hs \<Longrightarrow> nonneg_scores (deep_copy hs)"
  by (auto simp: nonneg_scores_def deep_copy_def list_all_iff set_object_entries)

lemma eliminate_loop_nonneg:
  "nonneg_scores (hypotheses e) \<Longrightarrow> nonneg_scores (hypotheses (eliminate_loop hs e))"
proof (induction hs arbitrary: e)
  case Nil
  then show ?case by simp
next
  case (Cons h hs)
  show ?case
    unfolding eliminate_loop.simps
    by (rule Cons.IH) (use Cons.prems in \<open>auto simp: nonneg_scores_update split: option.splits\<close>)
qed

lemma elimination_rules_loop_nonneg:
  "nonneg_scores (hypotheses e) \<Longrightarrow>
   nonneg_scores (hypotheses (elimination_rules_loop rs sigs e))"
proof (induction rs arbitrary: e)
  case Nil
  then show ?case by simp
next
  case (Cons r rs)
  obtain m w where mw: "evaluateConditions (er_if r) sigs = (m, w)"
    by (cases "evaluateConditions (er_if r) sigs")
  show ?case
    unfolding elimination_rules_loop.simps mw prod.case Let_def
    by (rule Cons.IH) (use Cons.prems in \<open>auto simp: eliminate_loop_nonneg\<close>)
qed

lemma then_loop_nonneg:
  "nonneg_scores hyps \<Longrightarrow> nonneg_scores (then_loop ths hyps)"
proof (induction ths arbitrary: hyps)
  case Nil
  then show ?case by simp
next
  case (Cons t ths)
  obtain x c where t: "t = (x, c)" by (cases t)
  show ?case
    unfolding t then_loop.simps
    by (rule Cons.IH)
       (use Cons.prems in \<open>auto simp: nonneg_scores_update Let_def split: option.splits\<close>)
qed

lemma scoring_rules_loop_nonneg:
  "nonneg_scores (hypotheses e) \<Longrightarrow>
   nonneg_scores (hypotheses (scoring_rules_loop rs sigs e))"
proof (induction rs arbitrary: e)
  case Nil
  then show ?case by simp
next
  case (Cons r rs)
  obtain m w where mw: "evaluateConditions (sr_if r) sigs = (m, w)"
    by (cases "evaluateConditions (sr_if r) sigs")
  show ?case
    unfolding scoring_rules_loop.simps mw prod.case Let_def
    by (rule Cons.IH) (use Cons.prems in \<open>auto simp: then_loop_nonneg\<close>)
qed

lemma then_loop_single:
  "map_of hyps h = Some d \<Longrightarrow> \<not> eliminated d \<Longrightarrow>
   map_of (then_loop [(h, delta)] hyps) h =
     Some (d\<lparr>score := (if score d + delta < 0 then 0 else score d + delta)\<rparr>)"
  by (simp add: map_of_update Let_def)

text \<open>
  C5: with non-negative initial scores, every score of the working copy is non-negative
  after any number of elimination rules followed by any number of scoring rules (so after
  each rule, after each stage and at the end of the analysis) and after each delta inside a
  rule; a delta that would take the score of a hypothesis that is not eliminated below 0
  leaves it at exactly 0.
\<close>

theorem scores_never_negative:
  assumes "list_all (\<lambda>(name, s). 0 \<le> s) (rs_hypotheses (rules e))"
  shows "nonneg_scores (hypotheses
           (scoring_rules_loop (take j (rs_rules (rules e))) sigs
             (elimination_rules_loop (take i (rs_elimination_rules (rules e))) sigs (reset e))))
       \<and> nonneg_scores (hypotheses (applyEliminationRules sigs (reset e)))
       \<and> nonneg_scores (hypotheses (snd (analyze e sigs)))
       \<and> (nonneg_scores hyps \<longrightarrow> nonneg_scores (then_loop ths hyps))
       \<and> (map_of hyps h = Some d \<and> \<not> eliminated d \<and> score d + delta < 0 \<longrightarrow>
            map_of (then_loop [(h, delta)] hyps) h = Some (d\<lparr>score := 0\<rparr>))"
proof -
  have init: "nonneg_scores (hypotheses (reset e))"
    using assms by (simp add: reset_def nonneg_scores_deep_copy)
  have pt: "nonneg_scores (hypotheses
           (scoring_rules_loop rs sigs (elimination_rules_loop es sigs (reset e))))" for rs es
    by (intro scoring_rules_loop_nonneg elimination_rules_loop_nonneg init)
  have "nonneg_scores (hypotheses (applyEliminationRules sigs (reset e)))"
    unfolding applyEliminationRules_def by (intro elimination_rules_loop_nonneg init)
  moreover have "nonneg_scores (hypotheses (snd (analyze e sigs)))"
    using pt [of "rs_rules (rules e)" "rs_elimination_rules (rules e)"]
    by (simp add: analyze_def Let_def applyScoringRules_def applyEliminationRules_def reset_def)
  moreover have "nonneg_scores hyps \<longrightarrow> nonneg_scores (then_loop ths hyps)"
    by (simp add: then_loop_nonneg)
  moreover have "map_of hyps h = Some d \<and> \<not> eliminated d \<and> score d + delta < 0 \<longrightarrow>
            map_of (then_loop [(h, delta)] hyps) h = Some (d\<lparr>score := 0\<rparr>)"
    by (simp add: map_of_update Let_def)
  ultimately show ?thesis using pt by blast
qed

theorem scores_never_negative_witness:
  "list_all (\<lambda>(name, s). 0 \<le> s) (rs_hypotheses (rules (DiagnosticEngine clamp_rules [])))
   \<and> hypotheses (snd (analyze (DiagnosticEngine clamp_rules []) clamp_signals))
       = [(''cpu'', \<lparr>score = 0, eliminated = False\<rparr>)]
   \<and> nonneg_scores (hypotheses (snd (analyze (DiagnosticEngine clamp_rules []) clamp_signals)))
   \<and> nonneg_scores [(''cpu'', \<lparr>score = 5, eliminated = False\<rparr>)]
   \<and> nonneg_scores (then_loop [(''cpu'', - 20)] [(''cpu'', \<lparr>score = 5, eliminated = False\<rparr>)])
   \<and> map_of [(''cpu'', \<lparr>score = 5, eliminated = False\<rparr>)] ''cpu'' = Some \<lparr>score = 5, eliminated = False\<rparr>
   \<and> \<not> eliminated \<lparr>score = 5, eliminated = False\<rparr>
   \<and> score \<lparr>score = 5, eliminated = False\<rparr> + (- 20) < 0
   \<and> map_of (then_loop [(''cpu'', - 20)] [(''cpu'', \<lparr>score = 5, eliminated = False\<rparr>)]) ''cpu''
       = Some \<lparr>score = 0, eliminated = False\<rparr>"
proof -
  have h: "list_all (\<lambda>(name, s). 0 \<le> s) (rs_hypotheses (rules (DiagnosticEngine clamp_rules [])))"
    by (simp add: DiagnosticEngine_def clamp_rules_def)
  have a: "hypotheses (snd (analyze (DiagnosticEngine clamp_rules []) clamp_signals))
       = [(''cpu'', \<lparr>score = 0, eliminated = False\<rparr>)]"
    by (simp add: analyze_def applyScoringRules_def applyEliminationRules_def reset_def
        DiagnosticEngine_def clamp_rules_def clamp_signals_def deep_copy_def object_entries_def is_array_index_def is_digit_def Let_def)
  have n: "nonneg_scores [(''cpu'', \<lparr>score = 5, eliminated = False\<rparr>)]"
    by (simp add: nonneg_scores_def)
  from scores_never_negative [OF h, of 2 clamp_signals 0
      "[(''cpu'', \<lparr>score = 5, eliminated = False\<rparr>)]" "[(''cpu'', - 20)]" "''cpu''"
      "\<lparr>score = 5, eliminated = False\<rparr>" "- 20"] h a n
  show ?thesis by simp
qed

subsection \<open>The log of applied rules\<close>

lemma appliedRules_analyze:
  "appliedRules (snd (analyze e sigs)) =
     map (\<lambda>r. \<lparr>ar_id = er_id r, ar_type = elimination, ar_explanation = er_explanation r,
               ar_scores = None\<rparr>)
       (filter (\<lambda>r. fst (evaluateConditions (er_if r) sigs)) (rs_elimination_rules (rules e)))
     @ map (\<lambda>r. \<lparr>ar_id = sr_id r, ar_type = scoring, ar_explanation = sr_explanation r,
               ar_scores = Some (sr_then r)\<rparr>)
       (filter (\<lambda>r. fst (evaluateConditions (sr_if r) sigs)) (rs_rules (rules e)))"
  by (simp add: analyze_def Let_def applyScoringRules_def applyEliminationRules_def
      scoring_rules_loop_applied elimination_rules_loop_applied reset_def)

lemma evidence_analyze:
  "evidence_of (appliedRules (snd (analyze e sigs))) =
     map sr_explanation (filter (\<lambda>r. fst (evaluateConditions (sr_if r) sigs)) (rs_rules (rules e)))"
  by (simp add: appliedRules_analyze evidence_of_def filter_map comp_def)

lemma totalScore_active:
  "totalScore e =
     sum_list (map (\<lambda>(name, d). score d) (filter (\<lambda>(name, d). \<not> eliminated d) (hypotheses e)))"
  by (simp add: totalScore_sum_list activeHypotheses_def comp_def case_prod_unfold)

text \<open>
  C3, as the code has it: when the scores of the hypotheses that are not eliminated sum to 0
  after both stages, the result is the unknown verdict: \<open>primary_cause = "unknown"\<close>,
  \<open>confidence_percent = 0\<close>, \<open>confidence_level = "Low"\<close>, the explanations of the applied
  scoring records in order as evidence (those of the scoring rules whose trigger matched, in
  rule order), the eliminated causes as collected, and the fixed list of two next steps.
\<close>

theorem zero_total_unknown_verdict:
  assumes "sum_list (map (\<lambda>(name, d). score d)
             (filter (\<lambda>(name, d). \<not> eliminated d) (hypotheses (snd (analyze e sigs))))) = 0"
  shows "fst (analyze e sigs) =
           Inr \<lparr>primary_cause = ''unknown'',
                confidence_percent = 0,
                confidence_level = ''Low'',
                raw_score = None,
                evidence = map ar_explanation
                  (filter (\<lambda>r. ar_type r = scoring) (appliedRules (snd (analyze e sigs)))),
                eliminated_causes = eliminatedCauses (snd (analyze e sigs)),
                next_steps = [''Collect more diagnostic data'', ''Run additional tests''],
                all_hypotheses = None,
                all_scores = hypotheses (snd (analyze e sigs)),
                applied_rules = appliedRules (snd (analyze e sigs))\<rparr>
       \<and> map ar_explanation (filter (\<lambda>r. ar_type r = scoring) (appliedRules (snd (analyze e sigs))))
           = map sr_explanation
               (filter (\<lambda>r. fst (evaluateConditions (sr_if r) sigs)) (rs_rules (rules e)))"
proof -
  let ?e' = "applyScoringRules sigs (applyEliminationRules sigs (reset e))"
  have e': "snd (analyze e sigs) = ?e'" by (simp add: analyze_def Let_def)
  from assms have "totalScore ?e' = 0" by (simp add: totalScore_active e')
  then have "fst (analyze e sigs) =
           Inr \<lparr>primary_cause = ''unknown'',
                confidence_percent = 0,
                confidence_level = ''Low'',
                raw_score = None,
                evidence = evidence_of (appliedRules ?e'),
                eliminated_causes = eliminatedCauses ?e',
                next_steps = [''Collect more diagnostic data'', ''Run additional tests''],
                all_hypotheses = None,
                all_scores = hypotheses ?e',
                applied_rules = appliedRules ?e'\<rparr>"
    by (simp add: analyze_def Let_def calculateResult_def)
  then show ?thesis
    using evidence_analyze [of e sigs] by (simp add: e' evidence_of_def)
qed

theorem zero_total_unknown_verdict_witness:
  "sum_list (map (\<lambda>(name, d). score d) (filter (\<lambda>(name, d). \<not> eliminated d)
      (hypotheses (snd (analyze (DiagnosticEngine clamp_rules []) clamp_signals))))) = 0
   \<and> fst (analyze (DiagnosticEngine clamp_rules []) clamp_signals) =
           Inr \<lparr>primary_cause = ''unknown'',
                confidence_percent = 0,
                confidence_level = ''Low'',
                raw_score = None,
                evidence = [''CPU is mostly idle'', ''Load average is low''],
                eliminated_causes = [],
                next_steps = [''Collect more diagnostic data'', ''Run additional tests''],
                all_hypotheses = None,
                all_scores = [(''cpu'', \<lparr>score = 0, eliminated = False\<rparr>)],
                applied_rules =
                  [\<lparr>ar_id = ''idle'', ar_type = scoring, ar_explanation = ''CPU is mostly idle'',
                     ar_scores = Some [(''cpu'', - 5)]\<rparr>,
                   \<lparr>ar_id = ''low_load'', ar_type = scoring,
                     ar_explanation = ''Load average is low'',
                     ar_scores = Some [(''cpu'', - 20)]\<rparr>]\<rparr>"
proof -
  have s: "snd (analyze (DiagnosticEngine clamp_rules []) clamp_signals) =
     \<lparr>rules = clamp_rules, hypotheses = [(''cpu'', \<lparr>score = 0, eliminated = False\<rparr>)],
      eliminatedCauses = [],
      appliedRules =
                  [\<lparr>ar_id = ''idle'', ar_type = scoring, ar_explanation = ''CPU is mostly idle'',
                     ar_scores = Some [(''cpu'', - 5)]\<rparr>,
                   \<lparr>ar_id = ''low_load'', ar_type = scoring,
                     ar_explanation = ''Load average is low'',
                     ar_scores = Some [(''cpu'', - 20)]\<rparr>],
      console = []\<rparr>"
    by (simp add: analyze_def applyScoringRules_def applyEliminationRules_def reset_def
        DiagnosticEngine_def clamp_rules_def clamp_signals_def deep_copy_def object_entries_def is_array_index_def is_digit_def Let_def)
  have h: "sum_list (map (\<lambda>(name, d). score d) (filter (\<lambda>(name, d). \<not> eliminated d)
      (hypotheses (snd (analyze (DiagnosticEngine clamp_rules []) clamp_signals))))) = 0"
    by (simp add: s)
  from zero_total_unknown_verdict [OF h] h show ?thesis by (simp add: s)
qed

text \<open>
  C3 as stated fails: the unknown verdict carries two next steps, not three.
\<close>

theorem unknown_verdict_next_steps_counterexample:
  "totalScore (snd (analyze (DiagnosticEngine clamp_rules []) clamp_signals)) = 0
   \<and> \<not> isl (fst (analyze (DiagnosticEngine clamp_rules []) clamp_signals))
   \<and> primary_cause (projr (fst (analyze (DiagnosticEngine clamp_rules []) clamp_signals)))
       = ''unknown''
   \<and> next_steps (projr (fst (analyze (DiagnosticEngine clamp_rules []) clamp_signals)))
       = [''Collect more diagnostic data'', ''Run additional tests'']
   \<and> length (next_steps (projr (fst (analyze (DiagnosticEngine clamp_rules []) clamp_signals))))
       \<noteq> 3"
  by (simp add: analyze_def applyScoringRules_def applyEliminationRules_def reset_def
        DiagnosticEngine_def clamp_rules_def clamp_signals_def deep_copy_def object_entries_def is_array_index_def is_digit_def Let_def
        calculateResult_def totalScore_def activeHypotheses_def)

lemma floor_rat_numeral:
  "\<lfloor>numeral a / numeral b :: rat\<rfloor> = numeral a div numeral b"
  by (metis floor_divide_of_int_eq of_int_numeral)

subsection \<open>Each analysis starts from the rule set\<close>









subsection \<open>The ranked list\<close>

lemma calculateResult_ranked:
  assumes "totalScore e \<noteq> 0"
  shows "\<exists>r. calculateResult e = Inr r
           \<and> all_hypotheses r = Some (sort_by_confidence (normalizedHypotheses e))
           \<and> primary_cause r = h_name (hd (sort_by_confidence (normalizedHypotheses e)))
           \<and> confidence_percent r
               = h_confidence_percent (hd (sort_by_confidence (normalizedHypotheses e)))"
proof -
  obtain p ps where "sort_by_confidence (normalizedHypotheses e) = p # ps"
    using sort_by_confidence_nonempty [OF assms]
    by (cases "sort_by_confidence (normalizedHypotheses e)") auto
  with assms show ?thesis by (simp add: calculateResult_def)
qed

subsection \<open>Order of the ranked list\<close>

lemma find_filter:
  "find P xs = (case filter P xs of [] \<Rightarrow> None | x # _ \<Rightarrow> Some x)"
  by (induction xs) auto

lemma hd_sort_key_find:
  assumes "xs \<noteq> []"
  shows "find (\<lambda>x. list_all (\<lambda>y. f x \<le> f y) xs) xs = Some (hd (sort_key f xs))"
proof -
  let ?s = "sort_key f xs"
  from assms have "length ?s \<noteq> 0" by simp
  then obtain p ps where s: "?s = p # ps" by (cases ?s) auto
  have "sorted (map f ?s)" by (rule sorted_sort_key)
  then have "\<forall>y \<in> set ?s. f p \<le> f y" unfolding s by auto
  then have least: "\<forall>y \<in> set xs. f p \<le> f y" by simp
  have "p \<in> set ?s" unfolding s by simp
  then have p: "p \<in> set xs" by simp
  have eq: "list_all (\<lambda>y. f x \<le> f y) xs \<longleftrightarrow> f x = f p" if "x \<in> set xs" for x
    using that least p by (auto simp: list_all_iff intro: antisym)
  have "filter (\<lambda>y. f y = f p) xs = filter (\<lambda>y. f y = f p) ?s"
    by (rule sort_key_stable [symmetric])
  also have "\<dots> = p # filter (\<lambda>y. f y = f p) ps" unfolding s by simp
  finally have "find (\<lambda>y. f y = f p) xs = Some p" by (simp add: find_filter)
  moreover have "find (\<lambda>x. list_all (\<lambda>y. f x \<le> f y) xs) xs = find (\<lambda>y. f y = f p) xs"
    by (rule find_cong) (simp_all add: eq)
  ultimately show ?thesis by (simp add: s)
qed

lemma hypotheses_analyze_keys:
  "map fst (hypotheses (snd (analyze e sigs))) = map fst (object_entries (rs_hypotheses (rules e)))"
  by (simp add: analyze_def Let_def applyScoringRules_def applyEliminationRules_def
      scoring_rules_loop_keys elimination_rules_loop_keys reset_def deep_copy_keys)

lemma normalized_names:
  "map h_name (normalizedHypotheses e)
     = map fst (filter (\<lambda>(name, d). \<not> eliminated d) (hypotheses e))"
  by (simp add: normalizedHypotheses_def activeHypotheses_def comp_def case_prod_unfold)

text \<open>
  C7, as the code has it: when the total is positive, the ranked list is in descending order
  of \<open>confidence_percent\<close>; the hypotheses with one and the same percentage appear in the
  order they have among the normalized hypotheses, which are the hypotheses that are not
  eliminated in the order in which the \<open>hypotheses\<close> object lists its keys: the names that
  are array indices in ascending numeric order first, then the other names in declared order.
  So when no name is an array index this is the declared order. \<open>primary_cause\<close> is the
  first in that order among the hypotheses with the greatest percentage.
\<close>

theorem ranking_descending_and_stable:
  assumes "0 < totalScore (snd (analyze e sigs))"
  shows "\<exists>r ranked p. fst (analyze e sigs) = Inr r \<and> all_hypotheses r = Some ranked
     \<and> sorted_wrt (\<lambda>a b. h_confidence_percent b \<le> h_confidence_percent a) ranked
     \<and> (\<forall>k. filter (\<lambda>a. h_confidence_percent a = k) ranked
             = filter (\<lambda>a. h_confidence_percent a = k)
                 (normalizedHypotheses (snd (analyze e sigs))))
     \<and> map h_name (normalizedHypotheses (snd (analyze e sigs)))
         = map fst (filter (\<lambda>(name, d). \<not> eliminated d) (hypotheses (snd (analyze e sigs))))
     \<and> map fst (hypotheses (snd (analyze e sigs)))
         = map fst (sort_key (\<lambda>(name, s). digits_value 0 name)
                     (filter (\<lambda>(name, s). is_array_index name) (rs_hypotheses (rules e))))
           @ map fst (filter (\<lambda>(name, s). \<not> is_array_index name) (rs_hypotheses (rules e)))
     \<and> (list_all (\<lambda>(name, s). \<not> is_array_index name) (rs_hypotheses (rules e)) \<longrightarrow>
          map fst (hypotheses (snd (analyze e sigs))) = map fst (rs_hypotheses (rules e)))
     \<and> find (\<lambda>a. list_all (\<lambda>b. h_confidence_percent b \<le> h_confidence_percent a)
                 (normalizedHypotheses (snd (analyze e sigs))))
           (normalizedHypotheses (snd (analyze e sigs))) = Some p
     \<and> primary_cause r = h_name p \<and> confidence_percent r = h_confidence_percent p"
proof -
  let ?e' = "snd (analyze e sigs)"
  let ?N = "normalizedHypotheses ?e'"
  let ?R = "sort_by_confidence ?N"
  let ?f = "\<lambda>a. - h_confidence_percent a"
  have e': "fst (analyze e sigs) = calculateResult ?e'" by (simp add: analyze_def Let_def)
  from assms have t: "totalScore ?e' \<noteq> 0" by simp
  from calculateResult_ranked [OF t] e'
  obtain r where r: "fst (analyze e sigs) = Inr r" "all_hypotheses r = Some ?R"
    "primary_cause r = h_name (hd ?R)" "confidence_percent r = h_confidence_percent (hd ?R)"
    by auto
  have "sorted (map ?f ?R)" unfolding sort_by_confidence_def by (rule sorted_sort_key)
  then have 1: "sorted_wrt (\<lambda>a b. h_confidence_percent b \<le> h_confidence_percent a) ?R"
    by (simp add: sorted_map)
  have 2: "filter (\<lambda>a. h_confidence_percent a = k) ?R
             = filter (\<lambda>a. h_confidence_percent a = k) ?N" for k
    using sort_key_stable [of ?f "- k" ?N] by (simp add: sort_by_confidence_def)
  from t have "activeHypotheses ?e' \<noteq> []" by (auto simp: totalScore_sum_list)
  then have "?N \<noteq> []" by (simp add: normalizedHypotheses_def)
  from hd_sort_key_find [OF this, of ?f]
  have 3: "find (\<lambda>a. list_all (\<lambda>b. h_confidence_percent b \<le> h_confidence_percent a) ?N) ?N
             = Some (hd ?R)"
    by (simp add: sort_by_confidence_def)
  have 4: "map fst (hypotheses ?e')
         = map fst (sort_key (\<lambda>(name, s). digits_value 0 name)
                     (filter (\<lambda>(name, s). is_array_index name) (rs_hypotheses (rules e))))
           @ map fst (filter (\<lambda>(name, s). \<not> is_array_index name) (rs_hypotheses (rules e)))"
    by (simp add: hypotheses_analyze_keys object_entries_def)
  have 5: "map fst (hypotheses ?e') = map fst (rs_hypotheses (rules e))"
    if "list_all (\<lambda>(name, s). \<not> is_array_index name) (rs_hypotheses (rules e))"
    using object_entries_no_index [OF that] by (simp add: hypotheses_analyze_keys)
  from r 1 2 3 4 5 normalized_names [of ?e']
  show ?thesis by blast
qed

theorem ranking_descending_and_stable_witness:
  "0 < totalScore (snd (analyze (DiagnosticEngine tie_rules []) Map.empty))
   \<and> list_all (\<lambda>(name, s). \<not> is_array_index name)
        (rs_hypotheses (rules (DiagnosticEngine tie_rules [])))
   \<and> map fst (rs_hypotheses tie_rules) = [''dns'', ''network'', ''disk'', ''cpu'']
   \<and> map fst (hypotheses (snd (analyze (DiagnosticEngine tie_rules []) Map.empty)))
       = [''dns'', ''network'', ''disk'', ''cpu'']
   \<and> map h_name (the (all_hypotheses (projr (fst (analyze (DiagnosticEngine tie_rules []) Map.empty)))))
       = [''network'', ''disk'', ''dns'', ''cpu'']
   \<and> map h_confidence_percent
         (the (all_hypotheses (projr (fst (analyze (DiagnosticEngine tie_rules []) Map.empty)))))
       = [33, 33, 17, 17]
   \<and> primary_cause (projr (fst (analyze (DiagnosticEngine tie_rules []) Map.empty))) = ''network''"
proof -
  have t: "totalScore (snd (analyze (DiagnosticEngine tie_rules []) Map.empty)) = 6"
    by (simp add: analyze_def applyScoringRules_def applyEliminationRules_def reset_def
        DiagnosticEngine_def tie_rules_def deep_copy_def object_entries_def is_array_index_def
        is_digit_def Let_def totalScore_def activeHypotheses_def)
  have h: "0 < totalScore (snd (analyze (DiagnosticEngine tie_rules []) Map.empty))"
    by (simp add: t)
  have i: "list_all (\<lambda>(name, s). \<not> is_array_index name)
        (rs_hypotheses (rules (DiagnosticEngine tie_rules [])))"
    by (simp add: DiagnosticEngine_def tie_rules_def is_array_index_def is_digit_def)
  have n: "normalizedHypotheses (snd (analyze (DiagnosticEngine tie_rules []) Map.empty))
       = [\<lparr>h_name = ''dns'', h_score = 1, h_confidence_percent = 17\<rparr>,
          \<lparr>h_name = ''network'', h_score = 2, h_confidence_percent = 33\<rparr>,
          \<lparr>h_name = ''disk'', h_score = 2, h_confidence_percent = 33\<rparr>,
          \<lparr>h_name = ''cpu'', h_score = 1, h_confidence_percent = 17\<rparr>]"
    by (simp add: analyze_def applyScoringRules_def applyEliminationRules_def reset_def
        DiagnosticEngine_def tie_rules_def deep_copy_def object_entries_def is_array_index_def
        is_digit_def Let_def totalScore_def activeHypotheses_def normalizedHypotheses_def
        Math_round_def floor_rat_numeral)
  from ranking_descending_and_stable [OF h]
  obtain r ranked p where r:
    "fst (analyze (DiagnosticEngine tie_rules []) Map.empty) = Inr r"
    "all_hypotheses r = Some ranked"
    "sorted_wrt (\<lambda>a b. h_confidence_percent b \<le> h_confidence_percent a) ranked"
    "\<And>k. filter (\<lambda>a. h_confidence_percent a = k) ranked
             = filter (\<lambda>a. h_confidence_percent a = k)
                 (normalizedHypotheses (snd (analyze (DiagnosticEngine tie_rules []) Map.empty)))"
    "list_all (\<lambda>(name, s). \<not> is_array_index name)
        (rs_hypotheses (rules (DiagnosticEngine tie_rules []))) \<longrightarrow>
      map fst (hypotheses (snd (analyze (DiagnosticEngine tie_rules []) Map.empty)))
        = map fst (rs_hypotheses (rules (DiagnosticEngine tie_rules [])))"
    "find (\<lambda>a. list_all (\<lambda>b. h_confidence_percent b \<le> h_confidence_percent a)
                 (normalizedHypotheses (snd (analyze (DiagnosticEngine tie_rules []) Map.empty))))
           (normalizedHypotheses (snd (analyze (DiagnosticEngine tie_rules []) Map.empty))) = Some p"
    "primary_cause r = h_name p"
    by blast
  from r(5) i have k: "map fst (hypotheses (snd (analyze (DiagnosticEngine tie_rules []) Map.empty)))
       = [''dns'', ''network'', ''disk'', ''cpu'']"
    by (simp add: DiagnosticEngine_def tie_rules_def)
  from r(6) have "p = \<lparr>h_name = ''network'', h_score = 2, h_confidence_percent = 33\<rparr>"
    by (simp add: n)
  then have p: "h_name p = ''network''" by simp
  have a: "all_hypotheses (projr (fst (analyze (DiagnosticEngine tie_rules []) Map.empty)))
       = Some [\<lparr>h_name = ''network'', h_score = 2, h_confidence_percent = 33\<rparr>,
               \<lparr>h_name = ''disk'', h_score = 2, h_confidence_percent = 33\<rparr>,
               \<lparr>h_name = ''dns'', h_score = 1, h_confidence_percent = 17\<rparr>,
               \<lparr>h_name = ''cpu'', h_score = 1, h_confidence_percent = 17\<rparr>]"
    by (simp add: analyze_def applyScoringRules_def applyEliminationRules_def reset_def
        DiagnosticEngine_def tie_rules_def deep_copy_def object_entries_def is_array_index_def
        is_digit_def Let_def calculateResult_def totalScore_def activeHypotheses_def
        normalizedHypotheses_def sort_by_confidence_def Math_round_def floor_rat_numeral)
  from r(1) r(7) p have "primary_cause (projr (fst (analyze (DiagnosticEngine tie_rules []) Map.empty)))
    = ''network''" by simp
  with h i k a show ?thesis by (simp add: tie_rules_def)
qed

text \<open>
  C7 as stated fails: declared in the order \<open>b\<close>, \<open>2\<close>, \<open>1\<close> with equal scores, the three
  hypotheses tie on the percentage, and the ranked list is \<open>1\<close>, \<open>2\<close>, \<open>b\<close> with
  \<open>primary_cause = "1"\<close>, the hypothesis declared last.
\<close>

theorem declared_order_counterexample:
  "map fst (rs_hypotheses index_rules) = [''b'', ''2'', ''1'']
   \<and> 0 < totalScore (snd (analyze (DiagnosticEngine index_rules []) Map.empty))
   \<and> map h_confidence_percent
         (the (all_hypotheses (projr (fst (analyze (DiagnosticEngine index_rules []) Map.empty)))))
       = [33, 33, 33]
   \<and> map h_name
         (the (all_hypotheses (projr (fst (analyze (DiagnosticEngine index_rules []) Map.empty)))))
       = [''1'', ''2'', ''b'']
   \<and> primary_cause (projr (fst (analyze (DiagnosticEngine index_rules []) Map.empty))) = ''1''"
  by (simp add: analyze_def applyScoringRules_def applyEliminationRules_def reset_def
        DiagnosticEngine_def index_rules_def deep_copy_def object_entries_def is_array_index_def
        is_digit_def Let_def calculateResult_def totalScore_def activeHypotheses_def
        normalizedHypotheses_def sort_by_confidence_def Math_round_def floor_rat_numeral)

subsection \<open>Warnings\<close>

lemma console_analyze:
  "console (snd (analyze e sigs)) =
     console e
     @ concat (map (\<lambda>r. snd (evaluateConditions (er_if r) sigs)) (rs_elimination_rules (rules e)))
     @ concat (map (\<lambda>r. snd (evaluateConditions (sr_if r) sigs)) (rs_rules (rules e)))"
  by (simp add: analyze_def Let_def applyScoringRules_def applyEliminationRules_def
      scoring_rules_loop_console elimination_rules_loop_console reset_def)

text \<open>
  C8, as the code has it: an operator object with a symbol outside the six known ones never
  holds, so a trigger that contains it never matches; nothing is raised and \<open>analyze\<close>
  returns a result. The warning \<open>Unknown operator: <symbol>\<close> is written when evaluation
  reaches the symbol: the entries of the trigger before it hold, the signal is present and not
  \<open>null\<close>, and the operators listed before it in the object hold. Every line a trigger of
  the rule set writes is on the console after \<open>analyze\<close>.
\<close>

theorem unknown_operator_fails:
  assumes "operator \<notin> set known_operators"
  shows "fst (evaluateOperators v (pre @ (operator, threshold) # post)) = False
     \<and> fst (evaluateConditions
              (tpre @ (key, CObj (pre @ (operator, threshold) # post)) # tpost) sigs) = False
     \<and> (fst (evaluateOperators v pre) \<longrightarrow>
           evaluateOperators v (pre @ (operator, threshold) # post)
             = (False, [''Unknown operator: '' @ operator]))
     \<and> (fst (evaluateConditions tpre sigs) \<and> sigs key = Some v \<and> v \<noteq> JNull
          \<and> fst (evaluateOperators v pre) \<longrightarrow>
           evaluateConditions
               (tpre @ (key, CObj (pre @ (operator, threshold) # post)) # tpost) sigs
             = (False, [''Unknown operator: '' @ operator]))
     \<and> (\<exists>r. fst (analyze e sigs) = Inr r)
     \<and> console (snd (analyze e sigs)) =
          console e
          @ concat (map (\<lambda>r. snd (evaluateConditions (er_if r) sigs))
                     (rs_elimination_rules (rules e)))
          @ concat (map (\<lambda>r. snd (evaluateConditions (sr_if r) sigs)) (rs_rules (rules e)))"
proof -
  have "\<not> fst (evaluateOperators v (pre @ (operator, threshold) # post))"
    using assms by (intro evaluateOperators_unknown_False [of operator threshold]) simp_all
  moreover have "\<not> fst (evaluateConditions
              (tpre @ (key, CObj (pre @ (operator, threshold) # post)) # tpost) sigs)"
    using assms by (rule evaluateConditions_unknown_False)
  moreover have "\<exists>r. fst (analyze e sigs) = Inr r"
    using analyze_Inr [of e sigs] by blast
  ultimately show ?thesis
    using evaluateOperators_reaches_unknown [OF assms, of v pre threshold post]
      evaluateConditions_reaches_unknown [OF assms, of tpre sigs key v pre threshold post tpost]
      console_analyze [of e sigs]
    by blast
qed

theorem unknown_operator_fails_witness:
  "''>>'' \<notin> set known_operators
   \<and> fst (evaluateConditions [] latency_signals)
   \<and> latency_signals ''dns_latency_ms'' = Some (JNum 420) \<and> JNum 420 \<noteq> JNull
   \<and> fst (evaluateOperators (JNum 420) [])
   \<and> evaluateConditions [(''dns_latency_ms'', CObj [(''>>'', JNum 5)])] latency_signals
       = (False, [''Unknown operator: >>''])
   \<and> console (snd (analyze (DiagnosticEngine unknown_operator_rules []) latency_signals))
       = [''Unknown operator: >>'']
   \<and> \<not> isl (fst (analyze (DiagnosticEngine unknown_operator_rules []) latency_signals))
   \<and> primary_cause (projr (fst (analyze (DiagnosticEngine unknown_operator_rules [])
         latency_signals))) = ''dns''
   \<and> evidence (projr (fst (analyze (DiagnosticEngine unknown_operator_rules [])
         latency_signals))) = []"
proof -
  have h: "''>>'' \<notin> set known_operators" by (simp add: known_operators_def)
  have r: "primary_cause (projr (fst (analyze (DiagnosticEngine unknown_operator_rules [])
         latency_signals))) = ''dns''
     \<and> evidence (projr (fst (analyze (DiagnosticEngine unknown_operator_rules [])
         latency_signals))) = []"
    by (simp add: analyze_def applyScoringRules_def applyEliminationRules_def reset_def
        DiagnosticEngine_def unknown_operator_rules_def latency_signals_def deep_copy_def object_entries_def is_array_index_def is_digit_def Let_def
        calculateResult_def totalScore_def activeHypotheses_def normalizedHypotheses_def
        sort_by_confidence_def Math_round_def evidence_of_def)
  from unknown_operator_fails [OF h, of "JNum 420" "[]" "JNum 5" "[]" "[]" "''dns_latency_ms''"
      "[]" latency_signals "DiagnosticEngine unknown_operator_rules []"]
  show ?thesis
    using h r
    by (auto simp: latency_signals_def DiagnosticEngine_def unknown_operator_rules_def)
qed

text \<open>
  C8 as stated fails: when an operator listed before the unknown one does not hold, the
  condition is false and no warning is written.
\<close>

theorem unknown_operator_silent_counterexample:
  "''>>'' \<notin> set known_operators
   \<and> evaluateOperators (JNum 420) [(''<'', JNum 0), (''>>'', JNum 5)] = (False, [])
   \<and> evaluateConditions [(''dns_latency_ms'', CObj [(''<'', JNum 0), (''>>'', JNum 5)])]
         latency_signals = (False, [])
   \<and> console (snd (analyze (DiagnosticEngine shadowed_operator_rules []) latency_signals)) = []"
  by (simp add: known_operators_def latency_signals_def analyze_def applyScoringRules_def
      applyEliminationRules_def reset_def DiagnosticEngine_def shadowed_operator_rules_def
      deep_copy_def object_entries_def is_array_index_def is_digit_def Let_def)

end
